theory Spec2Isabelle
  imports Main
begin

section \<open>The JavaScript values the library works on\<close>

subsection \<open>Map objects\<close>

text \<open>
  A JavaScript \<open>Map\<close> holds its entries in insertion order and has no two entries with the
  same key. Its contents are the list of its entries in that order; \<open>wf_map\<close> is the
  invariant every \<open>Map\<close> object satisfies.
\<close>

type_synonym ('k, 'v) js_map = "('k \<times> 'v) list"

definition wf_map :: "('k, 'v) js_map \<Rightarrow> bool" where
  "wf_map m = distinct (map fst m)"

definition Map_entries :: "('k, 'v) js_map \<Rightarrow> ('k \<times> 'v) list" where
  "Map_entries m = m"

definition Map_keys :: "('k, 'v) js_map \<Rightarrow> 'k list" where
  "Map_keys m = map fst m"

definition Map_has :: "('k, 'v) js_map \<Rightarrow> 'k \<Rightarrow> bool" where
  "Map_has m k = (k \<in> set (Map_keys m))"

text \<open>\<open>get\<close> answers \<open>undefined\<close> for a key that is absent: \<open>None\<close>.\<close>

fun Map_get :: "('k, 'v) js_map \<Rightarrow> 'k \<Rightarrow> 'v option" where
  "Map_get [] k = None"
| "Map_get ((k', v') # m) k = (if k' = k then Some v' else Map_get m k)"

text \<open>
  \<open>set\<close> replaces the value of a key that is present, where the entry stands, and appends
  a new entry otherwise.
\<close>

fun Map_set :: "('k, 'v) js_map \<Rightarrow> 'k \<Rightarrow> 'v \<Rightarrow> ('k, 'v) js_map" where
  "Map_set [] k v = [(k, v)]"
| "Map_set ((k', v') # m) k v =
     (if k' = k then (k', v) # m else (k', v') # Map_set m k v)"

definition Map_delete :: "('k, 'v) js_map \<Rightarrow> 'k \<Rightarrow> ('k, 'v) js_map" where
  "Map_delete m k = filter (\<lambda>(k', v'). k' \<noteq> k) m"

text \<open>\<open>new Map(iterable)\<close> starts empty and calls \<open>set\<close> for each pair in turn.\<close>

definition new_Map :: "('k \<times> 'v) list \<Rightarrow> ('k, 'v) js_map" where
  "new_Map kvs = foldl (\<lambda>m (k, v). Map_set m k v) [] kvs"

subsection \<open>Arrays and callbacks\<close>

text \<open>
  A callback either returns (\<open>Inr\<close>) or throws (\<open>Inl\<close>). What it answers depends on its
  arguments only, and it does not write to the map that is being processed.
  \<open>Array.from(items, mapFn)\<close> and \<open>Array.prototype.filter\<close> call it on the items in order
  and stop at the first throw, which they pass on. \<open>calls_of\<close> is the list of items the
  callback has been called on.
\<close>

fun Array_from :: "'a list \<Rightarrow> ('a \<Rightarrow> 'e + 'b) \<Rightarrow> 'e + 'b list" where
  "Array_from [] mapFn = Inr []"
| "Array_from (x # xs) mapFn =
     (case mapFn x of
        Inl e \<Rightarrow> Inl e
      | Inr y \<Rightarrow> (case Array_from xs mapFn of Inl e \<Rightarrow> Inl e | Inr ys \<Rightarrow> Inr (y # ys)))"

fun Array_filter :: "'a list \<Rightarrow> ('a \<Rightarrow> 'e + bool) \<Rightarrow> 'e + 'a list" where
  "Array_filter [] p = Inr []"
| "Array_filter (x # xs) p =
     (case p x of
        Inl e \<Rightarrow> Inl e
      | Inr b \<Rightarrow> (case Array_filter xs p of
                    Inl e \<Rightarrow> Inl e
                  | Inr ys \<Rightarrow> Inr (if b then x # ys else ys)))"

fun calls_of :: "'a list \<Rightarrow> ('a \<Rightarrow> 'e + 'b) \<Rightarrow> 'a list" where
  "calls_of [] cb = []"
| "calls_of (x # xs) cb = (case cb x of Inl e \<Rightarrow> [x] | Inr y \<Rightarrow> x # calls_of xs cb)"

text \<open>Reading an array at an index beyond its end gives \<open>undefined\<close>: \<open>None\<close>.\<close>

definition Array_index :: "'a list \<Rightarrow> nat \<Rightarrow> 'a option" where
  "Array_index xs i = (if i < length xs then Some (xs ! i) else None)"

subsection \<open>Promises\<close>

text \<open>
  A promise is described by the way it settles: fulfilled with a value or rejected with
  a reason, at an instant counted from the start of the call (\<open>0\<close>: without waiting), or
  never (\<open>Pending\<close>). The instants carry the completion order of concurrent work. A
  \<open>PromiseLike\<close> is taken to behave as a promise.
\<close>

datatype ('a, 'e) promise = Fulfilled nat 'a | Rejected nat 'e | Pending

text \<open>\<open>type MaybePromise<T> = T | PromiseLike<T>\<close>\<close>

datatype ('a, 'e) MaybePromise = Value 'a | Promise "('a, 'e) promise"

datatype ('a, 'e) PromiseSettledResult = PromiseFulfilledResult 'a | PromiseRejectedResult 'e

fun Promise_resolve :: "('a, 'e) MaybePromise \<Rightarrow> ('a, 'e) promise" where
  "Promise_resolve (Value a) = Fulfilled 0 a"
| "Promise_resolve (Promise p) = p"

text \<open>
  \<open>first_rejection\<close> finds the rejected promise that settles first (the one of lowest
  index among those of the same instant); \<open>all_fulfilled\<close> collects the values in the
  order of the array, with the instant the last of them arrives.
\<close>

fun first_rejection :: "('a, 'e) promise list \<Rightarrow> (nat \<times> 'e) option" where
  "first_rejection [] = None"
| "first_rejection (Rejected t e # ps) =
     (case first_rejection ps of
        None \<Rightarrow> Some (t, e)
      | Some (t', e') \<Rightarrow> if t' < t then Some (t', e') else Some (t, e))"
| "first_rejection (Fulfilled t a # ps) = first_rejection ps"
| "first_rejection (Pending # ps) = first_rejection ps"

fun all_fulfilled :: "('a, 'e) promise list \<Rightarrow> (nat \<times> 'a list) option" where
  "all_fulfilled [] = Some (0, [])"
| "all_fulfilled (Fulfilled t a # ps) =
     (case all_fulfilled ps of None \<Rightarrow> None | Some (t', as) \<Rightarrow> Some (max t t', a # as))"
| "all_fulfilled (Rejected t e # ps) = None"
| "all_fulfilled (Pending # ps) = None"

definition Promise_all :: "('a, 'e) MaybePromise list \<Rightarrow> ('a list, 'e) promise" where
  "Promise_all xs =
     (let ps = map Promise_resolve xs in
      case first_rejection ps of
        Some (t, e) \<Rightarrow> Rejected t e
      | None \<Rightarrow> (case all_fulfilled ps of
                   Some (t, as) \<Rightarrow> Fulfilled t as
                 | None \<Rightarrow> Pending))"

fun all_settled ::
  "('a, 'e) promise list \<Rightarrow> (nat \<times> ('a, 'e) PromiseSettledResult list) option" where
  "all_settled [] = Some (0, [])"
| "all_settled (Fulfilled t a # ps) =
     (case all_settled ps of
        None \<Rightarrow> None
      | Some (t', rs) \<Rightarrow> Some (max t t', PromiseFulfilledResult a # rs))"
| "all_settled (Rejected t e # ps) =
     (case all_settled ps of
        None \<Rightarrow> None
      | Some (t', rs) \<Rightarrow> Some (max t t', PromiseRejectedResult e # rs))"
| "all_settled (Pending # ps) = None"

definition Promise_allSettled ::
  "('a, 'e) MaybePromise list \<Rightarrow> (('a, 'e) PromiseSettledResult list, 'e) promise" where
  "Promise_allSettled xs =
     (case all_settled (map Promise_resolve xs) of
        Some (t, rs) \<Rightarrow> Fulfilled t rs
      | None \<Rightarrow> Pending)"

text \<open>
  Inside an \<open>async\<close> function, \<open>return g (await x)\<close> settles the function's promise once
  \<open>x\<close> has settled: with \<open>g\<close> of the value, or with the reason \<open>x\<close> was rejected with.
  The function resumes after its \<open>await\<close> in a later job, also when \<open>x\<close> is a plain value
  or a promise that has settled already, so its promise settles later than \<open>x\<close>. A throw
  in the body of an \<open>async\<close> function before any \<open>await\<close> rejects its promise at once.
\<close>

definition await_return :: "('a, 'e) MaybePromise \<Rightarrow> ('a \<Rightarrow> 'b) \<Rightarrow> ('b, 'e) promise" where
  "await_return x g =
     (case Promise_resolve x of
        Fulfilled t a \<Rightarrow> Fulfilled (Suc t) (g a)
      | Rejected t e \<Rightarrow> Rejected (Suc t) e
      | Pending \<Rightarrow> Pending)"

definition async :: "'e + ('b, 'e) promise \<Rightarrow> ('b, 'e) promise" where
  "async body = (case body of Inl e \<Rightarrow> Rejected 0 e | Inr p \<Rightarrow> p)"

section \<open>The library: \<open>src/map.ts\<close>\<close>

text \<open>
  What a call leaves behind: the value it returns, the arguments \<open>(value, key)\<close> its
  callback has been called with, in order, and the contents of the \<open>Map\<close> object it was
  given, as they are once the call is over.
\<close>

record ('res, 'k, 'v) outcome =
  returned :: 'res
  invoked :: "('v \<times> 'k) list"
  input_after :: "('k, 'v) js_map"

definition transformMap ::
  "('k, 'v) js_map \<Rightarrow> ('v \<Rightarrow> 'k \<Rightarrow> 'e + 'r) \<Rightarrow> ('e + ('k, 'r) js_map, 'k, 'v) outcome" where
  "transformMap m transform =
     (let mapFn = (\<lambda>(key, value).
            case transform value key of Inl e \<Rightarrow> Inl e | Inr r \<Rightarrow> Inr (key, r))
      in \<lparr> returned = (case Array_from (Map_entries m) mapFn of
                         Inl e \<Rightarrow> Inl e
                       | Inr kvs \<Rightarrow> Inr (new_Map kvs)),
           invoked = map (\<lambda>(key, value). (value, key)) (calls_of (Map_entries m) mapFn),
           input_after = m \<rparr>)"

definition filterMap ::
  "('k, 'v) js_map \<Rightarrow> ('v \<Rightarrow> 'k \<Rightarrow> 'e + bool) \<Rightarrow> ('e + ('k, 'v) js_map, 'k, 'v) outcome" where
  "filterMap m predicate =
     (let p = (\<lambda>(key, value). predicate value key)
      in \<lparr> returned = (case Array_filter (Map_entries m) p of
                         Inl e \<Rightarrow> Inl e
                       | Inr kvs \<Rightarrow> Inr (new_Map kvs)),
           invoked = map (\<lambda>(key, value). (value, key)) (calls_of (Map_entries m) p),
           input_after = m \<rparr>)"

text \<open>
  The two \<open>async\<close> functions run up to their \<open>await\<close>, are suspended there while the
  promises settle, and resume afterwards. Other code of the program runs in between:
  \<open>during\<close> is what it does to the \<open>Map\<close> object that was passed in.
\<close>

definition transformMapAsync ::
  "('k, 'v) js_map \<Rightarrow> ('v \<Rightarrow> 'k \<Rightarrow> 'e + ('r, 'e) MaybePromise) \<Rightarrow>
   (('k, 'v) js_map \<Rightarrow> ('k, 'v) js_map) \<Rightarrow>
   ((('k, 'r) js_map, 'e) promise, 'k, 'v) outcome" where
  "transformMapAsync m transform during =
     (let mapFn = (\<lambda>(key, value).
            Inr (Promise (async
              (case transform value key of
                 Inl e \<Rightarrow> Inl e
               | Inr x \<Rightarrow> Inr (await_return x (\<lambda>r. (key, r)))))))
      in \<lparr> returned = async
             (case Array_from (Map_entries m) mapFn of
                Inl e \<Rightarrow> Inl e
              | Inr ps \<Rightarrow> Inr (await_return (Promise (Promise_all ps)) new_Map)),
           invoked = map (\<lambda>(key, value). (value, key)) (calls_of (Map_entries m) mapFn),
           input_after = during m \<rparr>)"

text \<open>
  The loop of \<open>allSettledMap\<close>: for each index \<open>i\<close> and key of \<open>Array.from(map.keys())\<close>,
  \<open>result.set(key, newValues[i])\<close>. The values of the result are options because
  \<open>newValues[i]\<close> is \<open>undefined\<close> when there are more keys than outcomes.
\<close>

definition zip_outcomes :: "'k list \<Rightarrow> 'a list \<Rightarrow> ('k, 'a option) js_map" where
  "zip_outcomes keys newValues =
     foldl (\<lambda>result (i, key). Map_set result key (Array_index newValues i)) []
       (enumerate 0 keys)"

definition allSettledMap ::
  "('k, 'v) js_map \<Rightarrow> ('v \<Rightarrow> 'k \<Rightarrow> 'e + ('r, 'e) MaybePromise) \<Rightarrow>
   (('k, 'v) js_map \<Rightarrow> ('k, 'v) js_map) \<Rightarrow>
   ((('k, ('r, 'e) PromiseSettledResult option) js_map, 'e) promise, 'k, 'v) outcome" where
  "allSettledMap m transform during =
     (let mapFn = (\<lambda>(key, value). transform value key)
      in \<lparr> returned = async
             (case Array_from (Map_entries m) mapFn of
                Inl e \<Rightarrow> Inl e
              | Inr xs \<Rightarrow> Inr (await_return (Promise (Promise_allSettled xs))
                                (\<lambda>newValues. zip_outcomes (Map_keys (during m)) newValues))),
           invoked = map (\<lambda>(key, value). (value, key)) (calls_of (Map_entries m) mapFn),
           input_after = during m \<rparr>)"

text \<open>
  \<open>getOrDefault\<close> writes to the \<open>Map\<close> object it is given: it returns the value it reads
  at the end together with the contents of the object after the call.
\<close>

definition getOrDefault ::
  "('k, 'v) js_map \<Rightarrow> 'k \<Rightarrow> 'v \<Rightarrow> 'v option \<times> ('k, 'v) js_map" where
  "getOrDefault m key defaultValue =
     (let m' = (if \<not> Map_has m key then Map_set m key defaultValue else m)
      in (Map_get m' key, m'))"

text \<open>
  How one invocation of an asynchronous transform ends: with a value (returned as it is,
  or by a promise that is fulfilled), with a reason (thrown by the call, or by a promise
  that is rejected), or never.
\<close>

fun result_of :: "'e + ('r, 'e) MaybePromise \<Rightarrow> ('r, 'e) PromiseSettledResult option" where
  "result_of (Inl e) = Some (PromiseRejectedResult e)"
| "result_of (Inr (Value r)) = Some (PromiseFulfilledResult r)"
| "result_of (Inr (Promise (Fulfilled t r))) = Some (PromiseFulfilledResult r)"
| "result_of (Inr (Promise (Rejected t e))) = Some (PromiseRejectedResult e)"
| "result_of (Inr (Promise Pending)) = None"

section \<open>Map objects in a store\<close>

text \<open>
  A \<open>Map\<close> is an object: it has an identity, and what is written through one reference
  to it is seen through every other. A store is the list of the \<open>Map\<close> objects that
  exist, the address of an object is its position in the list, and a new object is
  added at the end. The values of all maps are JavaScript values, of one type.
\<close>

type_synonym address = nat

type_synonym ('k, 'x) store = "('k, 'x) js_map list"

definition Map_at :: "('k, 'x) store \<Rightarrow> address \<Rightarrow> ('k, 'x) js_map option" where
  "Map_at s r = Array_index s r"

text \<open>\<open>r.set(k, v)\<close> writes to the object at the address \<open>r\<close>.\<close>

definition Map_set_at :: "('k, 'x) store \<Rightarrow> address \<Rightarrow> 'k \<Rightarrow> 'x \<Rightarrow> ('k, 'x) store" where
  "Map_set_at s r k v = (case Map_at s r of None \<Rightarrow> s | Some m \<Rightarrow> s[r := Map_set m k v])"

text \<open>
  \<open>new Map(iterable)\<close> adds an empty object to the store and calls \<open>set\<close> on it for each
  pair in turn; \<open>new Map()\<close> is the same with no pairs.
\<close>

definition Map_construct ::
  "('k, 'x) store \<Rightarrow> ('k \<times> 'x) list \<Rightarrow> address \<times> ('k, 'x) store" where
  "Map_construct s kvs =
     (let r = length s
      in (r, foldl (\<lambda>s (k, v). Map_set_at s r k v) (s @ [[]]) kvs))"

text \<open>
  The five functions once more, in the same steps, as they act on a store: \<open>input\<close> is
  the address passed as \<open>map\<close>, and each answers its result (for a map, the address of
  the object) together with the store it leaves. The answer is \<open>None\<close> when \<open>input\<close> is
  not the address of an object, which the type of the parameter excludes. In the
  asynchronous functions \<open>during\<close> is what the rest of the program does to the store
  while the call is suspended, and \<open>as_value\<close> is the JavaScript value that stands for
  a settled-result record (or for \<open>undefined\<close>).
\<close>

definition transformMap_at ::
  "('k, 'x) store \<Rightarrow> address \<Rightarrow> ('x \<Rightarrow> 'k \<Rightarrow> 'e + 'x) \<Rightarrow>
   (('e + address) \<times> ('k, 'x) store) option" where
  "transformMap_at s input transform =
     (case Map_at s input of
        None \<Rightarrow> None
      | Some m \<Rightarrow> Some
          (case Array_from (Map_entries m)
                  (\<lambda>(key, value).
                     case transform value key of Inl e \<Rightarrow> Inl e | Inr r \<Rightarrow> Inr (key, r)) of
             Inl e \<Rightarrow> (Inl e, s)
           | Inr kvs \<Rightarrow> (let (r, s') = Map_construct s kvs in (Inr r, s'))))"

definition filterMap_at ::
  "('k, 'x) store \<Rightarrow> address \<Rightarrow> ('x \<Rightarrow> 'k \<Rightarrow> 'e + bool) \<Rightarrow>
   (('e + address) \<times> ('k, 'x) store) option" where
  "filterMap_at s input predicate =
     (case Map_at s input of
        None \<Rightarrow> None
      | Some m \<Rightarrow> Some
          (case Array_filter (Map_entries m) (\<lambda>(key, value). predicate value key) of
             Inl e \<Rightarrow> (Inl e, s)
           | Inr kvs \<Rightarrow> (let (r, s') = Map_construct s kvs in (Inr r, s'))))"

definition transformMapAsync_at ::
  "('k, 'x) store \<Rightarrow> address \<Rightarrow> ('x \<Rightarrow> 'k \<Rightarrow> 'e + ('x, 'e) MaybePromise) \<Rightarrow>
   (('k, 'x) store \<Rightarrow> ('k, 'x) store) \<Rightarrow>
   ((address, 'e) promise \<times> ('k, 'x) store) option" where
  "transformMapAsync_at s input transform during =
     (case Map_at s input of
        None \<Rightarrow> None
      | Some m \<Rightarrow> Some
          (let mapFn = (\<lambda>(key, value).
                 Inr (Promise (async
                   (case transform value key of
                      Inl e \<Rightarrow> Inl e
                    | Inr x \<Rightarrow> Inr (await_return x (\<lambda>r. (key, r)))))));
               joined = async
                 (case Array_from (Map_entries m) mapFn of
                    Inl e \<Rightarrow> Inl e
                  | Inr ps \<Rightarrow> Inr (await_return (Promise (Promise_all ps)) (\<lambda>kvs. kvs)));
               resumed = during s
           in case joined of
                Fulfilled t kvs \<Rightarrow>
                  (let (r, s') = Map_construct resumed kvs in (Fulfilled t r, s'))
              | Rejected t e \<Rightarrow> (Rejected t e, resumed)
              | Pending \<Rightarrow> (Pending, resumed)))"

definition allSettledMap_at ::
  "('k, 'x) store \<Rightarrow> address \<Rightarrow> ('x \<Rightarrow> 'k \<Rightarrow> 'e + ('x, 'e) MaybePromise) \<Rightarrow>
   (('k, 'x) store \<Rightarrow> ('k, 'x) store) \<Rightarrow>
   (('x, 'e) PromiseSettledResult option \<Rightarrow> 'x) \<Rightarrow>
   ((address, 'e) promise \<times> ('k, 'x) store) option" where
  "allSettledMap_at s input transform during as_value =
     (case Map_at s input of
        None \<Rightarrow> None
      | Some m \<Rightarrow>
          (let mapFn = (\<lambda>(key, value). transform value key);
               joined = async
                 (case Array_from (Map_entries m) mapFn of
                    Inl e \<Rightarrow> Inl e
                  | Inr xs \<Rightarrow> Inr (await_return (Promise (Promise_allSettled xs))
                                    (\<lambda>newValues. newValues)));
               resumed = during s
           in case joined of
                Fulfilled t newValues \<Rightarrow>
                  (let (result, s0) = Map_construct resumed []
                   in case Map_at s0 input of
                        None \<Rightarrow> None
                      | Some m' \<Rightarrow> Some
                          (Fulfilled t result,
                           foldl (\<lambda>s (i, key).
                                    Map_set_at s result key (as_value (Array_index newValues i)))
                             s0 (enumerate 0 (Map_keys m'))))
              | Rejected t e \<Rightarrow> Some (Rejected t e, resumed)
              | Pending \<Rightarrow> Some (Pending, resumed)))"

definition getOrDefault_at ::
  "('k, 'x) store \<Rightarrow> address \<Rightarrow> 'k \<Rightarrow> 'x \<Rightarrow> ('x option \<times> ('k, 'x) store) option" where
  "getOrDefault_at s input key defaultValue =
     (case Map_at s input of
        None \<Rightarrow> None
      | Some m \<Rightarrow>
          (let s' = (if \<not> Map_has m key then Map_set_at s input key defaultValue else s)
           in case Map_at s' input of
                None \<Rightarrow> None
              | Some m' \<Rightarrow> Some (Map_get m' key, s')))"

section \<open>The zip of \<open>allSettledMap\<close> as the specification words it\<close>

text \<open>
  The specification asks for the sequence of keys to be captured once, before the
  invocations are scheduled, and for that same sequence to be used when the outcomes are
  put back under their keys. \<open>allSettledMap_snapshot\<close> is \<open>allSettledMap\<close> written that
  way; it is the reference \<open>allSettledMap\<close> is compared with.
\<close>

definition allSettledMap_snapshot ::
  "('k, 'v) js_map \<Rightarrow> ('v \<Rightarrow> 'k \<Rightarrow> 'e + ('r, 'e) MaybePromise) \<Rightarrow>
   (('k, 'v) js_map \<Rightarrow> ('k, 'v) js_map) \<Rightarrow>
   ((('k, ('r, 'e) PromiseSettledResult option) js_map, 'e) promise, 'k, 'v) outcome" where
  "allSettledMap_snapshot m transform during =
     (let keys = Map_keys m;
          mapFn = (\<lambda>(key, value). transform value key)
      in \<lparr> returned = async
             (case Array_from (Map_entries m) mapFn of
                Inl e \<Rightarrow> Inl e
              | Inr xs \<Rightarrow> Inr (await_return (Promise (Promise_allSettled xs))
                                (\<lambda>newValues. zip_outcomes keys newValues))),
           invoked = map (\<lambda>(key, value). (value, key)) (calls_of (Map_entries m) mapFn),
           input_after = during m \<rparr>)"

section \<open>Inputs of the examples\<close>

text \<open>
  Values of JavaScript, among them the falsy ones \<open>undefined\<close>, \<open>false\<close> and \<open>0\<close>, and the
  records of \<open>Promise.allSettled\<close>.
\<close>

datatype js_value =
  Undefined | Boolean bool | Number int | Record "(js_value, string) PromiseSettledResult"

text \<open>\<open>(value) => value * 10\<close>\<close>

definition times_ten :: "int \<Rightarrow> string \<Rightarrow> string + (int, string) MaybePromise" where
  "times_ten value key = Inr (Value (value * 10))"

text \<open>\<open>(value, key) => { if (key === "a") throw "boom"; return value * 10 }\<close>\<close>

definition throws_on_a :: "int \<Rightarrow> string \<Rightarrow> string + (int, string) MaybePromise" where
  "throws_on_a value key = (if key = ''a'' then Inl ''boom'' else Inr (Value (value * 10)))"

text \<open>
  The transform of the specification's scenario: for \<open>a\<close> a promise fulfilled with \<open>10\<close>
  after a delay, for any other key a promise rejected with \<open>boom\<close> at once.
\<close>

definition slow_a_boom_b :: "int \<Rightarrow> string \<Rightarrow> string + (int, string) MaybePromise" where
  "slow_a_boom_b value key =
     (if key = ''a'' then Inr (Promise (Fulfilled 5 (value * 10)))
      else Inr (Promise (Rejected 0 ''boom'')))"

text \<open>An asynchronous transform whose later entries are ready before its earlier ones.\<close>

definition last_first :: "int \<Rightarrow> string \<Rightarrow> string + (int, string) MaybePromise" where
  "last_first value key = Inr (Promise (Fulfilled (nat (10 - value)) (value * 10)))"

text \<open>What the rest of the program does while a call is suspended.\<close>

definition nothing :: "(string, int) js_map \<Rightarrow> (string, int) js_map" where
  "nothing m = m"

definition delete_a :: "(string, int) js_map \<Rightarrow> (string, int) js_map" where
  "delete_a m = Map_delete m ''a''"

text \<open>
  For \<open>a\<close> a promise that is rejected already, for any other key a throw.
\<close>

definition rejected_a_throws_b :: "int \<Rightarrow> string \<Rightarrow> string + (int, string) MaybePromise" where
  "rejected_a_throws_b value key =
     (if key = ''a'' then Inr (Promise (Rejected 0 ''A'')) else Inl ''B'')"

text \<open>
  A store with one object, \<open>{a: 1, b: 2}\<close>; callbacks on JavaScript values; a program
  that creates another object while a call is suspended; and the value that stands
  for a settled-result record.
\<close>

definition one_map :: "(string, js_value) store" where
  "one_map = [[(''a'', Number 1), (''b'', Number 2)]]"

definition number_times_ten :: "js_value \<Rightarrow> string \<Rightarrow> string + js_value" where
  "number_times_ten value key =
     (case value of Number n \<Rightarrow> Inr (Number (n * 10)) | _ \<Rightarrow> Inl ''not a number'')"

definition number_is_even :: "js_value \<Rightarrow> string \<Rightarrow> string + bool" where
  "number_is_even value key =
     (case value of Number n \<Rightarrow> Inr (n mod 2 = 0) | _ \<Rightarrow> Inl ''not a number'')"

definition number_times_ten_later ::
  "js_value \<Rightarrow> string \<Rightarrow> string + (js_value, string) MaybePromise" where
  "number_times_ten_later value key =
     (case value of
        Number n \<Rightarrow> Inr (Promise (Fulfilled 3 (Number (n * 10))))
      | _ \<Rightarrow> Inl ''not a number'')"

definition creates_another :: "(string, js_value) store \<Rightarrow> (string, js_value) store" where
  "creates_another s = s @ [[(''z'', Undefined)]]"

definition settled_value :: "(js_value, string) PromiseSettledResult option \<Rightarrow> js_value" where
  "settled_value x = (case x of None \<Rightarrow> Undefined | Some r \<Rightarrow> Record r)"

section \<open>Facts about maps, arrays and promises\<close>

lemma Map_set_fresh: "k \<notin> set (map fst m) \<Longrightarrow> Map_set m k v = m @ [(k, v)]"
  by (induction m) auto

lemma foldl_Map_set_distinct:
  "distinct (map fst (acc @ kvs)) \<Longrightarrow>
   foldl (\<lambda>m (k, v). Map_set m k v) acc kvs = acc @ kvs"
proof (induction kvs arbitrary: acc)
  case Nil
  then show ?case by simp
next
  case (Cons kv kvs)
  obtain k v where kv: "kv = (k, v)" by (cases kv)
  from Cons.prems kv have fresh: "k \<notin> set (map fst acc)" by auto
  from Cons.prems kv have "distinct (map fst ((acc @ [(k, v)]) @ kvs))" by simp
  from Cons.IH [OF this] show ?case
    by (simp add: kv Map_set_fresh [OF fresh])
qed

lemma new_Map_wf: "distinct (map fst kvs) \<Longrightarrow> new_Map kvs = kvs"
  using foldl_Map_set_distinct [of "[]" kvs] by (simp add: new_Map_def)

lemma Array_from_returns:
  "\<forall>x \<in> set xs. mapFn x = Inr (g x) \<Longrightarrow> Array_from xs mapFn = Inr (map g xs)"
  by (induction xs) auto

lemma Array_filter_returns:
  "\<forall>x \<in> set xs. p x = Inr (q x) \<Longrightarrow> Array_filter xs p = Inr (filter q xs)"
  by (induction xs) auto

lemma calls_of_returns:
  "\<forall>x \<in> set xs. \<exists>y. cb x = Inr y \<Longrightarrow> calls_of xs cb = xs"
  by (induction xs) auto

lemma Map_get_map_values:
  "Map_get (map (\<lambda>(k, v). (k, f v k)) m) k = map_option (\<lambda>v. f v k) (Map_get m k)"
  by (induction m) auto

lemma Map_get_None: "k \<notin> set (map fst m) \<Longrightarrow> Map_get m k = None"
  by (induction m) auto

lemma Map_get_filter:
  "distinct (map fst m) \<Longrightarrow>
   Map_get (filter (\<lambda>(k, v). q v k) m) k =
     (case Map_get m k of None \<Rightarrow> None | Some v \<Rightarrow> if q v k then Some v else None)"
proof (induction m)
  case Nil
  then show ?case by simp
next
  case (Cons kv m)
  obtain k' v' where kv: "kv = (k', v')" by (cases kv)
  show ?case
  proof (cases "k' = k")
    case True
    with Cons.prems kv have "k \<notin> set (map fst m)" by auto
    then have "k \<notin> set (map fst (filter (\<lambda>(k, v). q v k) m))" by auto
    then have "Map_get (filter (\<lambda>(k, v). q v k) m) k = None" by (rule Map_get_None)
    with True kv show ?thesis by simp
  next
    case False
    with Cons kv show ?thesis by simp
  qed
qed

section \<open>\<open>transformMap\<close> and \<open>filterMap\<close>\<close>

lemma transformMap_returns:
  assumes wf: "wf_map m"
    and total: "\<forall>(k, v) \<in> set m. transform v k = Inr (f v k)"
  shows "returned (transformMap m transform) = Inr (map (\<lambda>(k, v). (k, f v k)) m)"
proof -
  let ?mapFn = "\<lambda>(key, value). case transform value key of
                   Inl e \<Rightarrow> Inl e | Inr r \<Rightarrow> Inr (key, r)"
  let ?r = "map (\<lambda>(k, v). (k, f v k)) m"
  from total have "\<forall>x \<in> set m. ?mapFn x = Inr ((\<lambda>(k, v). (k, f v k)) x)"
    by auto
  then have "Array_from m ?mapFn = Inr ?r"
    by (rule Array_from_returns)
  moreover have keys: "map fst ?r = map fst m"
    by (induction m) auto
  from wf have "distinct (map fst ?r)"
    unfolding keys wf_map_def .
  then have "new_Map ?r = ?r"
    by (rule new_Map_wf)
  ultimately show ?thesis
    by (simp add: transformMap_def Map_entries_def)
qed

text \<open>
  C5: for a map \<open>m\<close> and a transform that returns \<open>f v k\<close> on every entry of \<open>m\<close>,
  \<open>transformMap\<close> returns a map with the entries \<open>(k, f v k)\<close> in the order of the
  entries \<open>(k, v)\<close> of \<open>m\<close>: the same keys, and under every key \<open>k\<close> the value
  \<open>f (m[k]) k\<close>.
\<close>

theorem transformMap_total:
  assumes wf: "wf_map m"
    and total: "\<forall>(k, v) \<in> set (Map_entries m). transform v k = Inr (f v k)"
  shows "\<exists>r. returned (transformMap m transform) = Inr r
           \<and> Map_entries r = map (\<lambda>(k, v). (k, f v k)) (Map_entries m)
           \<and> Map_keys r = Map_keys m
           \<and> (\<forall>k. Map_get r k = map_option (\<lambda>v. f v k) (Map_get m k))"
proof -
  let ?r = "map (\<lambda>(k, v). (k, f v k)) m"
  from total have "\<forall>(k, v) \<in> set m. transform v k = Inr (f v k)"
    by (simp add: Map_entries_def)
  with wf have "returned (transformMap m transform) = Inr ?r"
    by (rule transformMap_returns)
  moreover have "map fst ?r = map fst m"
    by (induction m) auto
  ultimately show ?thesis
    by (simp add: Map_entries_def Map_keys_def Map_get_map_values)
qed

theorem transformMap_total_witness:
  "wf_map [(''a'', 1::int), (''b'', 2), (''c'', 3)]
   \<and> returned (transformMap [(''a'', 1::int), (''b'', 2), (''c'', 3)]
        (\<lambda>v k. Inr (v * 10) :: string + int))
     = Inr [(''a'', 10), (''b'', 20), (''c'', 30)]"
proof -
  have wf: "wf_map [(''a'', 1::int), (''b'', 2), (''c'', 3)]"
    by (simp add: wf_map_def)
  have total: "\<forall>(k, v) \<in> set (Map_entries [(''a'', 1::int), (''b'', 2), (''c'', 3)]).
      (Inr (v * 10) :: string + int) = Inr (v * 10)"
    by simp
  from transformMap_total [OF wf, of "\<lambda>v k. Inr (v * 10)" "\<lambda>v k. v * 10", OF total] wf
  show ?thesis
    by (auto simp: Map_entries_def)
qed

text \<open>
  C8: \<open>transformMap\<close> with the identity returns a map equal to its input: the same
  keys in the same order, with the same values.
\<close>

theorem transformMap_identity:
  assumes "wf_map m"
  shows "returned (transformMap m (\<lambda>value key. Inr value)) = Inr m"
proof -
  have "\<forall>(k, v) \<in> set m. Inr v = Inr ((\<lambda>v k. v) v k)"
    by simp
  with assms
  have "returned (transformMap m (\<lambda>value key. Inr value)) = Inr (map (\<lambda>(k, v). (k, v)) m)"
    by (rule transformMap_returns)
  then show ?thesis
    by simp
qed

theorem transformMap_identity_witness:
  "wf_map [(''a'', 1::int), (''b'', 2), (''c'', 3)]
   \<and> returned (transformMap [(''a'', 1::int), (''b'', 2), (''c'', 3)]
        (\<lambda>value key. Inr value :: string + int))
     = Inr [(''a'', 1), (''b'', 2), (''c'', 3)]"
proof -
  have wf: "wf_map [(''a'', 1::int), (''b'', 2), (''c'', 3)]"
    by (simp add: wf_map_def)
  from transformMap_identity [OF wf] wf show ?thesis
    by simp
qed

text \<open>
  C6: for a map \<open>m\<close> and a predicate that answers \<open>q v k\<close> on every entry of \<open>m\<close>,
  \<open>filterMap\<close> returns the map of exactly the entries \<open>(k, v)\<close> of \<open>m\<close> with \<open>q v k\<close>,
  values unchanged, in the order they have in \<open>m\<close>.
\<close>

theorem filterMap_exact:
  assumes wf: "wf_map m"
    and total: "\<forall>(k, v) \<in> set (Map_entries m). predicate v k = Inr (q v k)"
  shows "\<exists>r. returned (filterMap m predicate) = Inr r
           \<and> Map_entries r = filter (\<lambda>(k, v). q v k) (Map_entries m)
           \<and> (\<forall>k v. Map_get r k = Some v \<longleftrightarrow> Map_get m k = Some v \<and> q v k)"
proof -
  let ?p = "\<lambda>(key, value). predicate value key"
  let ?r = "filter (\<lambda>(k, v). q v k) m"
  from total have "\<forall>x \<in> set m. ?p x = Inr ((\<lambda>(k, v). q v k) x)"
    by (auto simp: Map_entries_def)
  then have "Array_filter m ?p = Inr ?r"
    by (rule Array_filter_returns)
  moreover from wf have "distinct (map fst ?r)"
    by (simp add: wf_map_def distinct_map_filter)
  then have "new_Map ?r = ?r"
    by (rule new_Map_wf)
  ultimately have "returned (filterMap m predicate) = Inr ?r"
    by (simp add: filterMap_def Map_entries_def)
  moreover from wf have "\<forall>k v. Map_get ?r k = Some v \<longleftrightarrow> Map_get m k = Some v \<and> q v k"
    by (auto simp: wf_map_def Map_get_filter split: option.splits)
  ultimately show ?thesis
    by (simp add: Map_entries_def)
qed

theorem filterMap_exact_witness:
  "wf_map [(''a'', 1::int), (''b'', 2), (''c'', 3)]
   \<and> returned (filterMap [(''a'', 1::int), (''b'', 2), (''c'', 3)]
        (\<lambda>v k. Inr (v mod 2 = 0) :: string + bool))
     = Inr [(''b'', 2)]"
proof -
  have wf: "wf_map [(''a'', 1::int), (''b'', 2), (''c'', 3)]"
    by (simp add: wf_map_def)
  have total: "\<forall>(k, v) \<in> set (Map_entries [(''a'', 1::int), (''b'', 2), (''c'', 3)]).
      (Inr (v mod 2 = 0) :: string + bool) = Inr (v mod 2 = 0)"
    by simp
  from filterMap_exact [OF wf, of "\<lambda>v k. Inr (v mod 2 = 0)" "\<lambda>v k. v mod 2 = 0", OF total] wf
  show ?thesis
    by (auto simp: Map_entries_def)
qed

section \<open>\<open>getOrDefault\<close>\<close>

lemma Map_get_None_iff: "Map_get m k = None \<longleftrightarrow> k \<notin> set (map fst m)"
  by (induction m) (auto split: if_splits)

lemma Map_get_has: "Map_has m k \<Longrightarrow> \<exists>v. Map_get m k = Some v"
  using Map_get_None_iff [of m k] by (cases "Map_get m k") (auto simp: Map_has_def Map_keys_def)

lemma Map_get_append_fresh:
  "k \<notin> set (map fst m) \<Longrightarrow> Map_get (m @ [(k, d)]) k = Some d"
  by (induction m) auto

text \<open>
  C7: when \<open>k\<close> is not in the map, \<open>getOrDefault\<close> appends the entry \<open>(k, d)\<close>, changes
  nothing else and returns \<open>d\<close>; when \<open>k\<close> is in the map with value \<open>v\<close>, it leaves the
  map as it is and returns \<open>v\<close>. Every call does exactly one of the two (no change, one
  insertion), and returns the value stored under \<open>k\<close> after the call.
\<close>

theorem getOrDefault_spec:
  "(\<not> Map_has m k \<longrightarrow> getOrDefault m k d = (Some d, m @ [(k, d)]))
   \<and> (\<forall>v. Map_has m k \<and> Map_get m k = Some v \<longrightarrow> getOrDefault m k d = (Some v, m))
   \<and> ((snd (getOrDefault m k d) = m) \<noteq> (snd (getOrDefault m k d) = m @ [(k, d)]))
   \<and> fst (getOrDefault m k d) = Map_get (snd (getOrDefault m k d)) k"
proof -
  have absent: "getOrDefault m k d = (Some d, m @ [(k, d)])" if "\<not> Map_has m k"
  proof -
    from that have fresh: "k \<notin> set (map fst m)"
      by (simp add: Map_has_def Map_keys_def)
    with that show ?thesis
      by (simp add: getOrDefault_def Map_set_fresh Map_get_append_fresh)
  qed
  have present: "getOrDefault m k d = (Map_get m k, m)" if "Map_has m k"
    using that by (simp add: getOrDefault_def)
  show ?thesis
  proof (cases "Map_has m k")
    case True
    with present show ?thesis by simp
  next
    case False
    then have "k \<notin> set (map fst m)"
      by (simp add: Map_has_def Map_keys_def)
    then have "Map_get (m @ [(k, d)]) k = Some d"
      by (rule Map_get_append_fresh)
    with False absent show ?thesis by simp
  qed
qed

theorem getOrDefault_spec_witness:
  "getOrDefault [] ''x'' (5::int) = (Some 5, [(''x'', 5)])
   \<and> getOrDefault [(''x'', 5::int)] ''x'' 9 = (Some 5, [(''x'', 5)])"
proof -
  have absent: "\<not> Map_has ([] :: (string, int) js_map) ''x''"
    by (simp add: Map_has_def Map_keys_def)
  have present: "Map_has [(''x'', 5::int)] ''x'' \<and> Map_get [(''x'', 5::int)] ''x'' = Some 5"
    by (simp add: Map_has_def Map_keys_def)
  from getOrDefault_spec [of "[]" "''x''" "5::int"] absent
    getOrDefault_spec [of "[(''x'', 5::int)]" "''x''" 9] present
  show ?thesis
    by simp
qed

text \<open>
  C10: \<open>getOrDefault\<close> decides by the presence of the key alone. Whenever the map has
  the key \<open>k\<close>, whatever value is stored under it (the statement holds for every type of
  values, so for \<open>undefined\<close> and the other falsy values too), the map is left as it is
  and the stored value is returned, not the default.
\<close>

theorem getOrDefault_by_membership:
  assumes "Map_has m k"
  shows "\<exists>v. Map_get m k = Some v \<and> getOrDefault m k d = (Some v, m)"
proof -
  from assms obtain v where "Map_get m k = Some v"
    using Map_get_has by fastforce
  with assms show ?thesis
    by (simp add: getOrDefault_def)
qed

theorem getOrDefault_by_membership_witness:
  "Map_has [(''k'', Undefined), (''z'', Number 0)] ''k''
   \<and> getOrDefault [(''k'', Undefined), (''z'', Number 0)] ''k'' (Number 5)
     = (Some Undefined, [(''k'', Undefined), (''z'', Number 0)])
   \<and> getOrDefault [(''k'', Undefined), (''z'', Number 0)] ''z'' (Number 5)
     = (Some (Number 0), [(''k'', Undefined), (''z'', Number 0)])"
proof -
  have k: "Map_has [(''k'', Undefined), (''z'', Number 0)] ''k''"
    by (simp add: Map_has_def Map_keys_def)
  have z: "Map_has [(''k'', Undefined), (''z'', Number 0)] ''z''"
    by (simp add: Map_has_def Map_keys_def)
  from getOrDefault_by_membership [OF k, of "Number 5"]
    getOrDefault_by_membership [OF z, of "Number 5"] k
  show ?thesis
    by simp
qed

section \<open>\<open>transformMapAsync\<close>\<close>

lemma async_arrow_fulfilled:
  assumes "result_of x = Some (PromiseFulfilledResult r)"
  shows "\<exists>t. async (case x of Inl e \<Rightarrow> Inl e | Inr y \<Rightarrow> Inr (await_return y g))
           = Fulfilled t (g r)"
  using assms by (cases x rule: result_of.cases) (auto simp: async_def await_return_def)

lemma async_arrow_rejected:
  "(\<exists>t. async (case x of Inl e' \<Rightarrow> Inl e' | Inr y \<Rightarrow> Inr (await_return y g)) = Rejected t e)
   \<longleftrightarrow> result_of x = Some (PromiseRejectedResult e)"
  by (cases x rule: result_of.cases) (auto simp: async_def await_return_def)

lemma all_fulfilled_map:
  assumes "\<forall>x \<in> set xs. \<exists>t. h x = Fulfilled t (val x)"
  shows "\<exists>t. all_fulfilled (map h xs) = Some (t, map val xs)"
  using assms
proof (induction xs)
  case Nil
  then show ?case by simp
next
  case (Cons x xs)
  then obtain t where "h x = Fulfilled t (val x)" by auto
  moreover from Cons obtain t' where "all_fulfilled (map h xs) = Some (t', map val xs)" by auto
  ultimately show ?case by simp
qed

lemma first_rejection_none:
  assumes "\<forall>x \<in> set xs. \<exists>t. h x = Fulfilled t (val x)"
  shows "first_rejection (map h xs) = None"
  using assms
proof (induction xs)
  case Nil
  then show ?case by simp
next
  case (Cons x xs)
  then obtain t where "h x = Fulfilled t (val x)" by auto
  with Cons show ?case by simp
qed

lemma first_rejection_mem:
  "first_rejection ps = Some (t, e) \<Longrightarrow> Rejected t e \<in> set ps"
proof (induction ps arbitrary: t e rule: first_rejection.induct)
  case 1
  then show ?case by simp
next
  case (2 t0 e0 ps)
  then show ?case by (auto split: option.splits if_splits)
next
  case (3 t0 a ps)
  then show ?case by simp
next
  case (4 ps)
  then show ?case by simp
qed

lemma first_rejection_some:
  "Rejected t e \<in> set ps \<Longrightarrow> \<exists>t' e'. first_rejection ps = Some (t', e')"
  by (induction ps rule: first_rejection.induct) (auto split: option.splits)

lemma transformMapAsync_scheduled:
  "Array_from m (\<lambda>(key, value). Inr (Promise (async
       (case transform value key of
          Inl e \<Rightarrow> Inl e
        | Inr x \<Rightarrow> Inr (await_return x (\<lambda>r. (key, r)))))))
   = Inr (map Promise (map (\<lambda>(key, value). async
       (case transform value key of
          Inl e \<Rightarrow> Inl e
        | Inr x \<Rightarrow> Inr (await_return x (\<lambda>r. (key, r))))) m))"
  by (induction m) auto

lemma Promise_all_promises:
  "Promise_all (map Promise ps) =
     (case first_rejection ps of
        Some (t, e) \<Rightarrow> Rejected t e
      | None \<Rightarrow> (case all_fulfilled ps of
                   Some (t, as) \<Rightarrow> Fulfilled t as
                 | None \<Rightarrow> Pending))"
proof -
  have "map Promise_resolve (map Promise ps) = ps"
    by (induction ps) auto
  then show ?thesis
    by (simp only: Promise_all_def Let_def)
qed

lemma transformMapAsync_calls:
  "calls_of m (\<lambda>(key, value). Inr (Promise (async
       (case transform value key of
          Inl e \<Rightarrow> Inl e
        | Inr x \<Rightarrow> Inr (await_return x (\<lambda>r. (key, r)))))))
   = m"
  by (rule calls_of_returns) auto

lemma transformMapAsync_invoked:
  "invoked (transformMapAsync m transform during) = map (\<lambda>(k, v). (v, k)) m"
  unfolding transformMapAsync_def Let_def Map_entries_def transformMapAsync_calls
  by simp

lemma transformMapAsync_returned:
  "returned (transformMapAsync m transform during)
   = await_return (Promise (Promise_all (map Promise (map (\<lambda>(key, value). async
       (case transform value key of
          Inl e \<Rightarrow> Inl e
        | Inr x \<Rightarrow> Inr (await_return x (\<lambda>r. (key, r))))) m)))) new_Map"
  unfolding transformMapAsync_def Let_def Map_entries_def transformMapAsync_scheduled
  by (simp add: async_def)

text \<open>
  C3: when every invocation of the transform succeeds, the one on the entry \<open>(k, v)\<close>
  with the value \<open>f v k\<close>, the promise of \<open>transformMapAsync\<close> is fulfilled with a map
  that has the keys of the input and under every key \<open>k\<close> the value \<open>f (m[k]) k\<close>, its
  entries in the order of the input's entries. The instants at which the invocations
  settle are arbitrary: the order of the result does not depend on them.
\<close>

theorem transformMapAsync_all_succeed:
  assumes wf: "wf_map m"
    and ok: "\<forall>(k, v) \<in> set (Map_entries m).
               result_of (transform v k) = Some (PromiseFulfilledResult (f v k))"
  shows "\<exists>t r. returned (transformMapAsync m transform during) = Fulfilled t r
           \<and> Map_entries r = map (\<lambda>(k, v). (k, f v k)) (Map_entries m)
           \<and> Map_keys r = Map_keys m
           \<and> (\<forall>k. Map_get r k = map_option (\<lambda>v. f v k) (Map_get m k))"
proof -
  let ?arrow = "\<lambda>(key, value). async
       (case transform value key of
          Inl e \<Rightarrow> Inl e
        | Inr x \<Rightarrow> Inr (await_return x (\<lambda>r. (key, r))))"
  let ?r = "map (\<lambda>(k, v). (k, f v k)) m"
  have each: "\<forall>x \<in> set m. \<exists>t. ?arrow x = Fulfilled t ((\<lambda>(k, v). (k, f v k)) x)"
  proof
    fix x assume x: "x \<in> set m"
    obtain k v where kv: "x = (k, v)" by (cases x)
    with x ok have "result_of (transform v k) = Some (PromiseFulfilledResult (f v k))"
      by (auto simp: Map_entries_def)
    from async_arrow_fulfilled [OF this, of "\<lambda>r. (k, r)"] kv
    show "\<exists>t. ?arrow x = Fulfilled t ((\<lambda>(k, v). (k, f v k)) x)"
      by simp
  qed
  from all_fulfilled_map [OF each] obtain t where t: "all_fulfilled (map ?arrow m) = Some (t, ?r)"
    by blast
  have none: "first_rejection (map ?arrow m) = None"
    using each by (rule first_rejection_none)
  have keys: "map fst ?r = map fst m"
    by (induction m) auto
  from wf have "distinct (map fst ?r)"
    unfolding keys wf_map_def .
  then have fresh: "new_Map ?r = ?r"
    by (rule new_Map_wf)
  have "returned (transformMapAsync m transform during) = Fulfilled (Suc t) ?r"
    unfolding transformMapAsync_returned Promise_all_promises none t
    by (simp add: await_return_def fresh)
  with keys show ?thesis
    by (simp add: Map_entries_def Map_keys_def Map_get_map_values)
qed

theorem transformMapAsync_all_succeed_witness:
  "wf_map [(''a'', 1::int), (''b'', 2), (''c'', 3)]
   \<and> returned (transformMapAsync [(''a'', 1), (''b'', 2), (''c'', 3)] last_first nothing)
     = Fulfilled 11 [(''a'', 10), (''b'', 20), (''c'', 30)]"
proof -
  have wf: "wf_map [(''a'', 1::int), (''b'', 2), (''c'', 3)]"
    by (simp add: wf_map_def)
  have ok: "\<forall>(k, v) \<in> set (Map_entries [(''a'', 1::int), (''b'', 2), (''c'', 3)]).
      result_of (last_first v k) = Some (PromiseFulfilledResult (v * 10))"
    by (simp add: Map_entries_def last_first_def)
  from transformMapAsync_all_succeed [OF wf ok, of nothing] wf
  show ?thesis
    by (auto simp: transformMapAsync_def Let_def Map_entries_def async_def await_return_def
        Promise_all_def new_Map_def last_first_def)
qed

text \<open>
  C2: when the invocation of the transform on some entry fails, the promise of
  \<open>transformMapAsync\<close> is rejected, with the reason of an invocation that failed; it is
  not fulfilled with any map. The transform has been called on every entry all the
  same.
\<close>

theorem transformMapAsync_fail_fast:
  assumes entry: "(k, v) \<in> set (Map_entries m)"
    and fails: "result_of (transform v k) = Some (PromiseRejectedResult e)"
  shows "\<exists>t e'. returned (transformMapAsync m transform during) = Rejected t e'
           \<and> (\<exists>(k', v') \<in> set (Map_entries m).
                 result_of (transform v' k') = Some (PromiseRejectedResult e'))
           \<and> (\<forall>t' r. returned (transformMapAsync m transform during) \<noteq> Fulfilled t' r)
           \<and> invoked (transformMapAsync m transform during)
               = map (\<lambda>(k, v). (v, k)) (Map_entries m)"
proof -
  let ?arrow = "\<lambda>(key, value). async
       (case transform value key of
          Inl e \<Rightarrow> Inl e
        | Inr x \<Rightarrow> Inr (await_return x (\<lambda>r. (key, r))))"
  from fails obtain t0 where "?arrow (k, v) = Rejected t0 e"
    using async_arrow_rejected [where x = "transform v k" and g = "\<lambda>r. (k, r)" and e = e] by auto
  with entry have "Rejected t0 e \<in> set (map ?arrow m)"
    by (force simp: Map_entries_def)
  then obtain t e' where first: "first_rejection (map ?arrow m) = Some (t, e')"
    using first_rejection_some by fastforce
  then have "Rejected t e' \<in> set (map ?arrow m)"
    by (rule first_rejection_mem)
  then obtain k' v' where entry': "(k', v') \<in> set m" and "?arrow (k', v') = Rejected t e'"
    by auto
  then have "result_of (transform v' k') = Some (PromiseRejectedResult e')"
    using async_arrow_rejected [where x = "transform v' k'" and g = "\<lambda>r. (k', r)" and e = e'] by auto
  with entry' have underlying: "\<exists>(k', v') \<in> set (Map_entries m).
      result_of (transform v' k') = Some (PromiseRejectedResult e')"
    by (auto simp: Map_entries_def)
  have "returned (transformMapAsync m transform during) = Rejected (Suc t) e'"
    unfolding transformMapAsync_returned Promise_all_promises first
    by (simp add: await_return_def)
  with underlying show ?thesis
    by (simp add: transformMapAsync_invoked Map_entries_def)
qed

theorem transformMapAsync_fail_fast_witness:
  "(''b'', 2) \<in> set (Map_entries [(''a'', 1::int), (''b'', 2)])
   \<and> result_of (slow_a_boom_b 2 ''b'') = Some (PromiseRejectedResult ''boom'')
   \<and> returned (transformMapAsync [(''a'', 1), (''b'', 2)] slow_a_boom_b nothing)
     = Rejected 2 ''boom''
   \<and> invoked (transformMapAsync [(''a'', 1), (''b'', 2)] slow_a_boom_b nothing)
     = [(1, ''a''), (2, ''b'')]"
proof -
  have entry: "(''b'', 2) \<in> set (Map_entries [(''a'', 1::int), (''b'', 2)])"
    by (simp add: Map_entries_def)
  have fails: "result_of (slow_a_boom_b 2 ''b'') = Some (PromiseRejectedResult ''boom'')"
    by (simp add: slow_a_boom_b_def)
  from transformMapAsync_fail_fast [where transform = slow_a_boom_b and during = nothing,
      OF entry fails] entry fails
  show ?thesis
    by (auto simp: transformMapAsync_def Let_def Map_entries_def async_def await_return_def
        Promise_all_def slow_a_boom_b_def)
qed

text \<open>
  A throw of the transform rejects the promise of its invocation at once, before any
  awaited promise can: of a promise that is rejected already for \<open>a\<close> and a throw for
  \<open>b\<close>, it is the throw that \<open>transformMapAsync\<close> is rejected with.
\<close>

lemma transformMapAsync_throw_first:
  "returned (transformMapAsync [(''a'', 1), (''b'', 2)] rejected_a_throws_b nothing)
     = Rejected 1 ''B''"
  by (simp add: transformMapAsync_def Let_def Map_entries_def async_def await_return_def
      Promise_all_def rejected_a_throws_b_def)

section \<open>\<open>allSettledMap\<close>\<close>

lemma Array_from_no_throw:
  assumes "\<forall>(k, v) \<in> set m. transform v k = Inr (x v k)"
  shows "Array_from m (\<lambda>(key, value). transform value key) = Inr (map (\<lambda>(k, v). x v k) m)"
proof -
  from assms
  have "\<forall>p \<in> set m. (\<lambda>(key, value). transform value key) p = Inr ((\<lambda>(k, v). x v k) p)"
    by auto
  then show ?thesis
    by (rule Array_from_returns)
qed

lemma all_settled_map:
  assumes "\<forall>p \<in> set xs. result_of (Inr (h p)) = Some (res p)"
  shows "\<exists>t. all_settled (map Promise_resolve (map h xs)) = Some (t, map res xs)"
  using assms
proof (induction xs)
  case Nil
  then show ?case by simp
next
  case (Cons p xs)
  then obtain t where rest: "all_settled (map Promise_resolve (map h xs)) = Some (t, map res xs)"
    by auto
  from Cons.prems have here: "result_of (Inr (h p)) = Some (res p)"
    by simp
  show ?case
  proof (cases "h p")
    case (Value a)
    with here rest show ?thesis by auto
  next
    case (Promise q)
    with here rest show ?thesis by (cases q) auto
  qed
qed

lemma foldl_set_enumerate:
  "distinct (map fst acc @ ks) \<Longrightarrow>
   foldl (\<lambda>result (i, key). Map_set result key (h i)) acc (enumerate n ks)
   = acc @ map (\<lambda>(i, key). (key, h i)) (enumerate n ks)"
proof (induction ks arbitrary: acc n)
  case Nil
  then show ?case by simp
next
  case (Cons k ks)
  from Cons.prems have fresh: "k \<notin> set (map fst acc)" by auto
  from Cons.prems have "distinct (map fst (acc @ [(k, h n)]) @ ks)" by simp
  from Cons.IH [OF this, of "Suc n"] show ?case
    by (simp add: Map_set_fresh [OF fresh])
qed

lemma zip_outcomes_aligned:
  assumes "distinct keys" and "length newValues = length keys"
  shows "zip_outcomes keys newValues = zip keys (map Some newValues)"
proof -
  from assms(1)
  have "zip_outcomes keys newValues
        = map (\<lambda>(i, key). (key, Array_index newValues i)) (enumerate 0 keys)"
    using foldl_set_enumerate [of "[]" keys "Array_index newValues" 0]
    by (simp add: zip_outcomes_def)
  also have "\<dots> = zip keys (map Some newValues)"
    using assms(2)
    by (intro nth_equalityI) (auto simp: nth_enumerate_eq Array_index_def)
  finally show ?thesis .
qed

text \<open>
  For a transform that returns on every entry (a value, or a promise that settles), and
  a map whose keys are not touched during the suspension, the promise of
  \<open>allSettledMap\<close> is fulfilled with a map that holds, under every key of the input and in
  the order of the input, the record of the way that entry's invocation ended.
\<close>

lemma allSettledMap_settles:
  assumes wf: "wf_map m"
    and quiet: "Map_keys (during m) = Map_keys m"
    and settle: "\<forall>(k, v) \<in> set (Map_entries m).
                   transform v k = Inr (x v k) \<and> result_of (Inr (x v k)) = Some (res v k)"
  shows "\<exists>t r. returned (allSettledMap m transform during) = Fulfilled t r
           \<and> Map_entries r = map (\<lambda>(k, v). (k, Some (res v k))) (Map_entries m)"
proof -
  from settle have "\<forall>(k, v) \<in> set m. transform v k = Inr (x v k)"
    by (auto simp: Map_entries_def)
  then have scheduled:
    "Array_from m (\<lambda>(key, value). transform value key) = Inr (map (\<lambda>(k, v). x v k) m)"
    by (rule Array_from_no_throw)
  from settle
  have "\<forall>p \<in> set m. result_of (Inr ((\<lambda>(k, v). x v k) p)) = Some ((\<lambda>(k, v). res v k) p)"
    by (auto simp: Map_entries_def)
  from all_settled_map [OF this] obtain t where
    t: "all_settled (map Promise_resolve (map (\<lambda>(k, v). x v k) m))
        = Some (t, map (\<lambda>(k, v). res v k) m)"
    by blast
  from wf have "distinct (map fst m)"
    by (simp add: wf_map_def)
  then have "zip_outcomes (map fst m) (map (\<lambda>(k, v). res v k) m)
             = zip (map fst m) (map Some (map (\<lambda>(k, v). res v k) m))"
    by (rule zip_outcomes_aligned) simp
  also have "\<dots> = map (\<lambda>(k, v). (k, Some (res v k))) m"
    by (induction m) auto
  finally have zipped: "zip_outcomes (map fst m) (map (\<lambda>(k, v). res v k) m)
                        = map (\<lambda>(k, v). (k, Some (res v k))) m" .
  have "returned (allSettledMap m transform during)
        = Fulfilled (Suc t) (map (\<lambda>(k, v). (k, Some (res v k))) m)"
    unfolding allSettledMap_def Let_def Map_entries_def scheduled sum.case quiet
      Promise_allSettled_def t
    by (simp add: async_def await_return_def Map_keys_def zipped)
  then show ?thesis
    by (simp add: Map_entries_def)
qed

text \<open>
  C1 asks for \<open>allSettledMap\<close> to resolve whatever the invocations do, with a rejected
  record under the key of each invocation that failed. That is not so for an
  invocation that fails by throwing: on the map \<open>{a: 1, b: 2}\<close> with a transform that
  throws \<open>boom\<close> for \<open>a\<close>, the promise of \<open>allSettledMap\<close> is rejected with \<open>boom\<close>, and the
  transform is never called for \<open>b\<close>.
\<close>

theorem allSettledMap_sync_throw:
  "result_of (throws_on_a 1 ''a'') = Some (PromiseRejectedResult ''boom'')
   \<and> returned (allSettledMap [(''a'', 1), (''b'', 2)] throws_on_a nothing) = Rejected 0 ''boom''
   \<and> invoked (allSettledMap [(''a'', 1), (''b'', 2)] throws_on_a nothing) = [(1, ''a'')]"
  by (simp add: allSettledMap_def Let_def Map_entries_def async_def throws_on_a_def)

text \<open>
  On the same input \<open>transformMapAsync\<close>, which wraps every call of the transform in an
  \<open>async\<close> function, does call the transform for \<open>b\<close>.
\<close>

lemma transformMapAsync_sync_throw:
  "returned (transformMapAsync [(''a'', 1), (''b'', 2)] throws_on_a nothing) = Rejected 1 ''boom''
   \<and> invoked (transformMapAsync [(''a'', 1), (''b'', 2)] throws_on_a nothing)
     = [(1, ''a''), (2, ''b'')]"
  by (simp add: transformMapAsync_def Let_def Map_entries_def async_def await_return_def
      Promise_all_def throws_on_a_def)

text \<open>
  The zip of \<open>allSettledMap\<close>: outcome \<open>i\<close> is put under the \<open>i\<close>-th key of the enumeration
  made after the suspension, and a key beyond the outcomes gets \<open>undefined\<close>.
\<close>

lemma zip_outcomes_positions:
  assumes "distinct keys"
  shows "zip_outcomes keys newValues
         = map (\<lambda>(i, key). (key, Array_index newValues i)) (enumerate 0 keys)"
  using assms foldl_set_enumerate [of "[]" keys "Array_index newValues" 0]
  by (simp add: zip_outcomes_def)

lemma allSettledMap_second_enumeration:
  assumes wf: "wf_map (during m)"
    and settle: "\<forall>(k, v) \<in> set (Map_entries m).
                   transform v k = Inr (x v k) \<and> result_of (Inr (x v k)) = Some (res v k)"
  shows "\<exists>t. returned (allSettledMap m transform during)
           = Fulfilled t
               (map (\<lambda>(i, key). (key, Array_index (map (\<lambda>(k, v). res v k) (Map_entries m)) i))
                  (enumerate 0 (Map_keys (during m))))"
proof -
  from settle have "\<forall>(k, v) \<in> set m. transform v k = Inr (x v k)"
    by (auto simp: Map_entries_def)
  then have scheduled:
    "Array_from m (\<lambda>(key, value). transform value key) = Inr (map (\<lambda>(k, v). x v k) m)"
    by (rule Array_from_no_throw)
  from settle
  have "\<forall>p \<in> set m. result_of (Inr ((\<lambda>(k, v). x v k) p)) = Some ((\<lambda>(k, v). res v k) p)"
    by (auto simp: Map_entries_def)
  from all_settled_map [OF this] obtain t where
    t: "all_settled (map Promise_resolve (map (\<lambda>(k, v). x v k) m))
        = Some (t, map (\<lambda>(k, v). res v k) m)"
    by blast
  from wf have "distinct (Map_keys (during m))"
    by (simp add: wf_map_def Map_keys_def)
  then have zipped: "zip_outcomes (Map_keys (during m)) (map (\<lambda>(k, v). res v k) m)
      = map (\<lambda>(i, key). (key, Array_index (map (\<lambda>(k, v). res v k) m) i))
          (enumerate 0 (Map_keys (during m)))"
    by (rule zip_outcomes_positions)
  have "returned (allSettledMap m transform during)
        = Fulfilled (Suc t)
            (map (\<lambda>(i, key). (key, Array_index (map (\<lambda>(k, v). res v k) m) i))
               (enumerate 0 (Map_keys (during m))))"
    unfolding allSettledMap_def Let_def Map_entries_def scheduled sum.case
      Promise_allSettled_def t
    by (simp add: async_def await_return_def zipped)
  then show ?thesis
    by (auto simp: Map_entries_def)
qed

text \<open>
  C4: the keys that the outcomes are put back under are to be the enumeration made
  before the invocations were scheduled, with no fresh iteration of the map in
  between. The code does iterate afresh, \<open>map.keys()\<close> after the suspension: when the
  entry of \<open>a\<close> is deleted from \<open>{a: 1, b: 2}\<close> while \<open>allSettledMap\<close> is suspended, the
  outcome of \<open>a\<close> ends up under \<open>b\<close>, whereas the zip over the single enumeration made
  before scheduling gives each key its own outcome.
\<close>

theorem allSettledMap_reiterates:
  "returned (allSettledMap [(''a'', 1), (''b'', 2)] times_ten delete_a)
     = Fulfilled 1 [(''b'', Some (PromiseFulfilledResult 10))]
   \<and> returned (allSettledMap_snapshot [(''a'', 1), (''b'', 2)] times_ten delete_a)
     = Fulfilled 1 [(''a'', Some (PromiseFulfilledResult 10)),
                    (''b'', Some (PromiseFulfilledResult 20))]
   \<and> returned (allSettledMap [(''a'', 1), (''b'', 2)] times_ten delete_a)
     \<noteq> returned (allSettledMap_snapshot [(''a'', 1), (''b'', 2)] times_ten delete_a)"
  by (simp add: allSettledMap_def allSettledMap_snapshot_def Let_def Map_entries_def
      Map_keys_def Map_delete_def async_def await_return_def Promise_allSettled_def
      zip_outcomes_def Array_index_def times_ten_def delete_a_def)

text \<open>
  \<open>transformMapAsync\<close> keeps the key with each result, from its one enumeration: under
  the same deletion every key has its own result.
\<close>

lemma transformMapAsync_keeps_keys:
  "returned (transformMapAsync [(''a'', 1), (''b'', 2)] times_ten delete_a)
     = Fulfilled 2 [(''a'', 10), (''b'', 20)]"
  by (simp add: transformMapAsync_def Let_def Map_entries_def async_def await_return_def
      Promise_all_def new_Map_def times_ten_def)

section \<open>The input map is only read and the result is a new object\<close>

text \<open>
  \<open>new Map(iterable)\<close> leaves every object of the store as it is and adds one, which
  holds what \<open>new_Map\<close> builds.
\<close>

lemma Map_set_at_last:
  "Map_set_at (s @ [m]) (length s) k v = s @ [Map_set m k v]"
  by (simp add: Map_set_at_def Map_at_def Array_index_def)

lemma foldl_Map_set_at_last:
  "foldl (\<lambda>s' (k, v). Map_set_at s' (length s) k v) (s @ [m]) kvs
   = s @ [foldl (\<lambda>m' (k, v). Map_set m' k v) m kvs]"
  by (induction kvs arbitrary: m) (auto simp: Map_set_at_last)

lemma Map_construct_appends: "Map_construct s kvs = (length s, s @ [new_Map kvs])"
  by (simp add: Map_construct_def new_Map_def Let_def foldl_Map_set_at_last)

lemma Map_at_old: "Map_at s r = Some m \<Longrightarrow> Map_at (s @ [n]) r = Some m"
  by (auto simp: Map_at_def Array_index_def nth_append split: if_splits)

lemma Map_at_fresh: "Map_at s (length s) = None"
  by (simp add: Map_at_def Array_index_def)

lemma Map_set_values:
  "Map_set (map (\<lambda>(k, x). (k, g x)) m) k (g v) = map (\<lambda>(k, x). (k, g x)) (Map_set m k v)"
  by (induction m) auto

text \<open>
  On a store each function does what it does on the contents of its input; a map it
  returns is a new object, added at the end of the store.
\<close>

lemma transformMap_at_eq:
  assumes "Map_at s input = Some m"
  shows "transformMap_at s input transform
         = Some (case returned (transformMap m transform) of
                   Inl e \<Rightarrow> (Inl e, s)
                 | Inr r \<Rightarrow> (Inr (length s), s @ [r]))"
  using assms
  by (simp add: transformMap_at_def transformMap_def Let_def Map_construct_appends
      split: sum.splits)

lemma filterMap_at_eq:
  assumes "Map_at s input = Some m"
  shows "filterMap_at s input predicate
         = Some (case returned (filterMap m predicate) of
                   Inl e \<Rightarrow> (Inl e, s)
                 | Inr r \<Rightarrow> (Inr (length s), s @ [r]))"
  using assms
  by (simp add: filterMap_at_def filterMap_def Let_def Map_construct_appends
      split: sum.splits)

lemma transformMapAsync_at_eq:
  assumes "Map_at s input = Some m"
  shows "transformMapAsync_at s input transform during
         = Some (case returned (transformMapAsync m transform d) of
                   Fulfilled t r \<Rightarrow> (Fulfilled t (length (during s)), during s @ [r])
                 | Rejected t e \<Rightarrow> (Rejected t e, during s)
                 | Pending \<Rightarrow> (Pending, during s))"
  using assms
  unfolding transformMapAsync_returned transformMapAsync_at_def Let_def Map_entries_def
    transformMapAsync_scheduled
  by (simp add: async_def await_return_def Map_construct_appends split: promise.splits)

lemma foldl_Map_set_at_last_enumerate:
  "foldl (\<lambda>s' (i, key). Map_set_at s' (length s) key (h i)) (s @ [m]) ps
   = s @ [foldl (\<lambda>m' (i, key). Map_set m' key (h i)) m ps]"
  by (induction ps arbitrary: m) (auto simp: Map_set_at_last)

lemma foldl_Map_set_values:
  "foldl (\<lambda>m' (i, key). Map_set m' key (g (h i))) (map (\<lambda>(k, x). (k, g x)) m) ps
   = map (\<lambda>(k, x). (k, g x)) (foldl (\<lambda>m' (i, key). Map_set m' key (h i)) m ps)"
  by (induction ps arbitrary: m) (auto simp: Map_set_values)

lemma zip_outcomes_at:
  "foldl (\<lambda>s' (i, key). Map_set_at s' (length s) key (g (Array_index newValues i)))
     (s @ [[]]) (enumerate 0 keys)
   = s @ [map (\<lambda>(k, x). (k, g x)) (zip_outcomes keys newValues)]"
  using foldl_Map_set_values [of g "Array_index newValues" "[]" "enumerate 0 keys"]
  by (simp add: foldl_Map_set_at_last_enumerate zip_outcomes_def)

lemma allSettledMap_at_eq:
  assumes "Map_at s input = Some m" and "Map_at (during s) input = Some m1"
  shows "allSettledMap_at s input transform during as_value
         = Some (case returned (allSettledMap m transform (\<lambda>m. m1)) of
                   Fulfilled t r \<Rightarrow>
                     (Fulfilled t (length (during s)),
                      during s @ [map (\<lambda>(k, x). (k, as_value x)) r])
                 | Rejected t e \<Rightarrow> (Rejected t e, during s)
                 | Pending \<Rightarrow> (Pending, during s))"
proof (cases "Array_from m (\<lambda>(key, value). transform value key)")
  case (Inl e)
  with assms show ?thesis
    by (simp add: allSettledMap_at_def allSettledMap_def Let_def Map_entries_def async_def)
next
  case (Inr xs)
  from assms(2) have "Map_at (during s @ [[]]) input = Some m1"
    by (rule Map_at_old)
  with assms(1) Inr show ?thesis
    by (cases "Promise_allSettled xs")
      (simp_all add: allSettledMap_at_def allSettledMap_def Let_def Map_entries_def async_def
        await_return_def Map_construct_appends new_Map_def zip_outcomes_at)
qed

text \<open>
  The field \<open>input_after\<close> of the functions on contents is the object at \<open>input\<close> in
  the store the call leaves.
\<close>

lemma input_after_in_store:
  assumes input: "Map_at s input = Some m"
    and resumed: "Map_at (during s) input = Some m1"
  shows "Map_at (snd (the (transformMap_at s input transform))) input
           = Some (input_after (transformMap m transform))"
    and "Map_at (snd (the (filterMap_at s input predicate))) input
           = Some (input_after (filterMap m predicate))"
    and "Map_at (snd (the (transformMapAsync_at s input transform' during))) input
           = Some (input_after (transformMapAsync m transform' (\<lambda>m. m1)))"
    and "Map_at (snd (the (allSettledMap_at s input transform' during as_value))) input
           = Some (input_after (allSettledMap m transform' (\<lambda>m. m1)))"
proof -
  have sync: "Map_at (s @ [n]) input = Some m" for n
    using input by (rule Map_at_old)
  have async: "Map_at (during s @ [n]) input = Some m1" for n
    using resumed by (rule Map_at_old)
  show "Map_at (snd (the (transformMap_at s input transform))) input
           = Some (input_after (transformMap m transform))"
    unfolding transformMap_at_eq [OF input]
    by (cases "returned (transformMap m transform)")
      (simp_all add: input sync transformMap_def Let_def)
  show "Map_at (snd (the (filterMap_at s input predicate))) input
           = Some (input_after (filterMap m predicate))"
    unfolding filterMap_at_eq [OF input]
    by (cases "returned (filterMap m predicate)")
      (simp_all add: input sync filterMap_def Let_def)
  show "Map_at (snd (the (transformMapAsync_at s input transform' during))) input
           = Some (input_after (transformMapAsync m transform' (\<lambda>m. m1)))"
    unfolding transformMapAsync_at_eq [OF input, where d = "\<lambda>m. m1"]
    by (cases "returned (transformMapAsync m transform' (\<lambda>m. m1))")
      (simp_all add: resumed async transformMapAsync_def Let_def)
  show "Map_at (snd (the (allSettledMap_at s input transform' during as_value))) input
           = Some (input_after (allSettledMap m transform' (\<lambda>m. m1)))"
    unfolding allSettledMap_at_eq [where during = during, OF input resumed]
    by (cases "returned (allSettledMap m transform' (\<lambda>m. m1))")
      (simp_all add: resumed async allSettledMap_def Let_def)
qed

text \<open>
  \<open>getOrDefault\<close> is the one function that writes to the object it is given.
\<close>

lemma Map_at_update: "Map_at s r = Some m \<Longrightarrow> Map_at (s[r := n]) r = Some n"
  by (auto simp: Map_at_def Array_index_def split: if_splits)

lemma getOrDefault_at_eq:
  assumes "Map_at s input = Some m"
  shows "getOrDefault_at s input key defaultValue
         = Some (fst (getOrDefault m key defaultValue),
                 s[input := snd (getOrDefault m key defaultValue)])"
proof (cases "Map_has m key")
  case True
  from assms have "s[input := m] = s"
    by (auto simp: Map_at_def Array_index_def split: if_splits)
  with True assms show ?thesis
    by (simp add: getOrDefault_at_def getOrDefault_def Let_def)
next
  case False
  with assms Map_at_update [OF assms, of "Map_set m key defaultValue"] show ?thesis
    by (simp add: getOrDefault_at_def getOrDefault_def Map_set_at_def Let_def)
qed

text \<open>
  C9: \<open>transformMap\<close>, \<open>filterMap\<close>, \<open>transformMapAsync\<close> and \<open>allSettledMap\<close> do not write
  to the map they are given. After a call of \<open>transformMap\<close> or \<open>filterMap\<close> the object
  at \<open>input\<close>, and every other object that existed before, has the entries, values and
  order it had before; a map that is returned is a new object, at an address that
  was not in use, and holds the result. The same holds of the two asynchronous
  functions with respect to the store as the rest of the program has left it when
  they resume (every object of that store is unchanged, and the only object added is
  the result), so when nothing else writes to the store the input is as before the
  call.
\<close>

theorem input_not_mutated:
  assumes input: "Map_at s input = Some m"
    and resumed: "Map_at (during s) input = Some m1"
  shows
    "(\<exists>res s'. transformMap_at s input transform = Some (res, s')
        \<and> Map_at s' input = Some m \<and> take (length s) s' = s
        \<and> (case res of
              Inl e \<Rightarrow> s' = s
            | Inr r \<Rightarrow> Map_at s r = None
                \<and> (\<exists>new. returned (transformMap m transform) = Inr new
                      \<and> s' = s @ [new] \<and> Map_at s' r = Some new)))
     \<and> (\<exists>res s'. filterMap_at s input predicate = Some (res, s')
        \<and> Map_at s' input = Some m \<and> take (length s) s' = s
        \<and> (case res of
              Inl e \<Rightarrow> s' = s
            | Inr r \<Rightarrow> Map_at s r = None
                \<and> (\<exists>new. returned (filterMap m predicate) = Inr new
                      \<and> s' = s @ [new] \<and> Map_at s' r = Some new)))
     \<and> (\<exists>p s'. transformMapAsync_at s input transform' during = Some (p, s')
        \<and> Map_at s' input = Some m1 \<and> take (length (during s)) s' = during s
        \<and> (case p of
              Fulfilled t r \<Rightarrow> Map_at (during s) r = None
                \<and> (\<exists>new. returned (transformMapAsync m transform' (\<lambda>m. m)) = Fulfilled t new
                      \<and> s' = during s @ [new] \<and> Map_at s' r = Some new)
            | Rejected t e \<Rightarrow> s' = during s
            | Pending \<Rightarrow> s' = during s))
     \<and> (\<exists>p s'. allSettledMap_at s input transform' during as_value = Some (p, s')
        \<and> Map_at s' input = Some m1 \<and> take (length (during s)) s' = during s
        \<and> (case p of
              Fulfilled t r \<Rightarrow> Map_at (during s) r = None
                \<and> (\<exists>new. returned (allSettledMap m transform' (\<lambda>m. m1)) = Fulfilled t new
                      \<and> s' = during s @ [map (\<lambda>(k, x). (k, as_value x)) new]
                      \<and> Map_at s' r = Some (map (\<lambda>(k, x). (k, as_value x)) new))
            | Rejected t e \<Rightarrow> s' = during s
            | Pending \<Rightarrow> s' = during s))
     \<and> (\<exists>p s'. transformMapAsync_at s input transform' (\<lambda>s. s) = Some (p, s')
        \<and> Map_at s' input = Some m \<and> take (length s) s' = s)
     \<and> (\<exists>p s'. allSettledMap_at s input transform' (\<lambda>s. s) as_value = Some (p, s')
        \<and> Map_at s' input = Some m \<and> take (length s) s' = s)"
proof -
  have new_object: "Map_at (s0 @ [n]) (length s0) = Some n" for s0 :: "('a, 'b) store" and n
    by (simp add: Map_at_def Array_index_def)
  have sync: "Map_at (s @ [n]) input = Some m" for n
    using input by (rule Map_at_old)
  have 1: "\<exists>res s'. transformMap_at s input transform = Some (res, s')
        \<and> Map_at s' input = Some m \<and> take (length s) s' = s
        \<and> (case res of
              Inl e \<Rightarrow> s' = s
            | Inr r \<Rightarrow> Map_at s r = None
                \<and> (\<exists>new. returned (transformMap m transform) = Inr new
                      \<and> s' = s @ [new] \<and> Map_at s' r = Some new))"
    unfolding transformMap_at_eq [OF input]
    by (cases "returned (transformMap m transform)")
      (simp_all add: input sync Map_at_fresh new_object)
  have 2: "\<exists>res s'. filterMap_at s input predicate = Some (res, s')
        \<and> Map_at s' input = Some m \<and> take (length s) s' = s
        \<and> (case res of
              Inl e \<Rightarrow> s' = s
            | Inr r \<Rightarrow> Map_at s r = None
                \<and> (\<exists>new. returned (filterMap m predicate) = Inr new
                      \<and> s' = s @ [new] \<and> Map_at s' r = Some new))"
    unfolding filterMap_at_eq [OF input]
    by (cases "returned (filterMap m predicate)")
      (simp_all add: input sync Map_at_fresh new_object)
  have 3: "\<exists>p s'. transformMapAsync_at s input transform' d = Some (p, s')
        \<and> Map_at s' input = Some n \<and> take (length (d s)) s' = d s
        \<and> (case p of
              Fulfilled t r \<Rightarrow> Map_at (d s) r = None
                \<and> (\<exists>new. returned (transformMapAsync m transform' (\<lambda>m. m)) = Fulfilled t new
                      \<and> s' = d s @ [new] \<and> Map_at s' r = Some new)
            | Rejected t e \<Rightarrow> s' = d s
            | Pending \<Rightarrow> s' = d s)"
    if "Map_at (d s) input = Some n" for d n
    unfolding transformMapAsync_at_eq [OF input, where d = "\<lambda>m. m"]
    by (cases "returned (transformMapAsync m transform' (\<lambda>m. m))")
      (simp_all add: that Map_at_old [OF that] Map_at_fresh new_object)
  have 4: "\<exists>p s'. allSettledMap_at s input transform' d as_value = Some (p, s')
        \<and> Map_at s' input = Some n \<and> take (length (d s)) s' = d s
        \<and> (case p of
              Fulfilled t r \<Rightarrow> Map_at (d s) r = None
                \<and> (\<exists>new. returned (allSettledMap m transform' (\<lambda>m. n)) = Fulfilled t new
                      \<and> s' = d s @ [map (\<lambda>(k, x). (k, as_value x)) new]
                      \<and> Map_at s' r = Some (map (\<lambda>(k, x). (k, as_value x)) new))
            | Rejected t e \<Rightarrow> s' = d s
            | Pending \<Rightarrow> s' = d s)"
    if "Map_at (d s) input = Some n" for d n
    unfolding allSettledMap_at_eq [where during = d, OF input that]
    by (cases "returned (allSettledMap m transform' (\<lambda>m. n))")
      (simp_all add: that Map_at_old [OF that] Map_at_fresh new_object)
  from 3 [of "\<lambda>s. s" m] input
  have 5: "\<exists>p s'. transformMapAsync_at s input transform' (\<lambda>s. s) = Some (p, s')
        \<and> Map_at s' input = Some m \<and> take (length s) s' = s"
    by blast
  from 4 [of "\<lambda>s. s" m] input
  have 6: "\<exists>p s'. allSettledMap_at s input transform' (\<lambda>s. s) as_value = Some (p, s')
        \<and> Map_at s' input = Some m \<and> take (length s) s' = s"
    by blast
  from 1 2 3 [of during m1, OF resumed] 4 [of during m1, OF resumed] 5 6 show ?thesis
    by blast
qed

theorem input_not_mutated_witness:
  "Map_at one_map 0 = Some [(''a'', Number 1), (''b'', Number 2)]
   \<and> Map_at (creates_another one_map) 0 = Some [(''a'', Number 1), (''b'', Number 2)]
   \<and> transformMap_at one_map 0 number_times_ten
     = Some (Inr 1, [[(''a'', Number 1), (''b'', Number 2)],
                     [(''a'', Number 10), (''b'', Number 20)]])
   \<and> filterMap_at one_map 0 number_is_even
     = Some (Inr 1, [[(''a'', Number 1), (''b'', Number 2)], [(''b'', Number 2)]])
   \<and> transformMapAsync_at one_map 0 number_times_ten_later creates_another
     = Some (Fulfilled 5 2, [[(''a'', Number 1), (''b'', Number 2)],
                             [(''z'', Undefined)],
                             [(''a'', Number 10), (''b'', Number 20)]])
   \<and> allSettledMap_at one_map 0 number_times_ten_later creates_another settled_value
     = Some (Fulfilled 4 2, [[(''a'', Number 1), (''b'', Number 2)],
                             [(''z'', Undefined)],
                             [(''a'', Record (PromiseFulfilledResult (Number 10))),
                              (''b'', Record (PromiseFulfilledResult (Number 20)))]])"
proof -
  have input: "Map_at one_map 0 = Some [(''a'', Number 1), (''b'', Number 2)]"
    by (simp add: one_map_def Map_at_def Array_index_def)
  have resumed:
    "Map_at (creates_another one_map) 0 = Some [(''a'', Number 1), (''b'', Number 2)]"
    by (simp add: one_map_def creates_another_def Map_at_def Array_index_def)
  have 1: "transformMap_at one_map 0 number_times_ten
     = Some (Inr 1, [[(''a'', Number 1), (''b'', Number 2)],
                     [(''a'', Number 10), (''b'', Number 20)]])"
    by (simp add: transformMap_at_def one_map_def Map_at_def Array_index_def Map_entries_def
        number_times_ten_def Map_construct_def Map_set_at_def Let_def)
  have 2: "filterMap_at one_map 0 number_is_even
     = Some (Inr 1, [[(''a'', Number 1), (''b'', Number 2)], [(''b'', Number 2)]])"
    by (simp add: filterMap_at_def one_map_def Map_at_def Array_index_def Map_entries_def
        number_is_even_def Map_construct_def Map_set_at_def Let_def)
  have 3: "transformMapAsync_at one_map 0 number_times_ten_later creates_another
     = Some (Fulfilled 5 2, [[(''a'', Number 1), (''b'', Number 2)],
                             [(''z'', Undefined)],
                             [(''a'', Number 10), (''b'', Number 20)]])"
    by (simp add: transformMapAsync_at_def one_map_def creates_another_def Map_at_def
        Array_index_def Map_entries_def number_times_ten_later_def Map_construct_def
        Map_set_at_def Let_def async_def await_return_def Promise_all_def)
  have 4: "allSettledMap_at one_map 0 number_times_ten_later creates_another settled_value
     = Some (Fulfilled 4 2, [[(''a'', Number 1), (''b'', Number 2)],
                             [(''z'', Undefined)],
                             [(''a'', Record (PromiseFulfilledResult (Number 10))),
                              (''b'', Record (PromiseFulfilledResult (Number 20)))]])"
    by (simp add: allSettledMap_at_def one_map_def creates_another_def Map_at_def
        Array_index_def Map_entries_def Map_keys_def number_times_ten_later_def
        Map_construct_def Map_set_at_def Let_def async_def await_return_def
        Promise_allSettled_def settled_value_def)
  from input_not_mutated [where during = creates_another, OF input resumed,
      of number_times_ten number_is_even number_times_ten_later settled_value]
    input resumed 1 2 3 4
  show ?thesis
    by simp
qed

end
